theory Spec2Isabelle
  imports Main "HOL-Library.Sublist"
begin

section \<open>Order-code extraction\<close>

text \<open>
  The source normalises a raw order string with two regular expressions, tried in order
  with \<^verbatim>\<open>re.search\<close>:
  \<^verbatim>\<open>[A-Z]+[A-Z0-9-]*(?=-[0-9]-[0-9])\<close> and \<^verbatim>\<open>[A-Z]+[A-Z0-9-]*\<close>.
  Strings are byte strings (UTF-8); the three character classes of the patterns are
  ASCII ranges, so every byte of a non-ASCII character lies outside all of them.
\<close>

definition is_upper :: "char \<Rightarrow> bool" where
  "is_upper c \<longleftrightarrow> 65 \<le> (of_char c :: nat) \<and> (of_char c :: nat) \<le> 90"

definition is_digit :: "char \<Rightarrow> bool" where
  "is_digit c \<longleftrightarrow> 48 \<le> (of_char c :: nat) \<and> (of_char c :: nat) \<le> 57"

definition is_hyphen :: "char \<Rightarrow> bool" where
  "is_hyphen c \<longleftrightarrow> c = CHR ''-''"

definition is_body :: "char \<Rightarrow> bool" where
  "is_body c \<longleftrightarrow> is_upper c \<or> is_digit c \<or> is_hyphen c"

text \<open>
  The fragment of regular expressions the two patterns use: a character class, a greedy
  \<^verbatim>\<open>*\<close> or \<^verbatim>\<open>+\<close> over a character class, and a positive lookahead.
  A pattern is the sequence of its items.
\<close>

datatype rx = One "char \<Rightarrow> bool" | Many0 "char \<Rightarrow> bool" | Many1 "char \<Rightarrow> bool" | Ahead "rx list"

text \<open>
  \<open>matches p s\<close> lists the lengths of all matches of \<open>p\<close> anchored at the start of
  \<open>s\<close>, in the order a backtracking matcher tries them: a greedy repetition first
  takes the whole run of the class and gives characters back one at a time. The engine
  reports the first.
\<close>

fun matches :: "rx list \<Rightarrow> string \<Rightarrow> nat list" where
  "matches [] s = [0]"
| "matches (One p # r) s =
     (case s of [] \<Rightarrow> [] | c # cs \<Rightarrow> if p c then map Suc (matches r cs) else [])"
| "matches (Many0 p # r) s =
     concat (map (\<lambda>k. map ((+) k) (matches r (drop k s)))
                 (rev [0 ..< Suc (length (takeWhile p s))]))"
| "matches (Many1 p # r) s =
     concat (map (\<lambda>k. map ((+) k) (matches r (drop k s)))
                 (rev [1 ..< Suc (length (takeWhile p s))]))"
| "matches (Ahead q # r) s = (if matches q s = [] then [] else matches r s)"

text \<open>
  \<^verbatim>\<open>re.search\<close>: the leftmost start position with a match, and at that position the
  first match in backtracking order. The result is the start and the length of the match.
\<close>

definition re_search :: "rx list \<Rightarrow> string \<Rightarrow> (nat \<times> nat) option" where
  "re_search p s =
     map_option (\<lambda>i. (i, hd (matches p (drop i s))))
       (find (\<lambda>i. matches p (drop i s) \<noteq> []) [0 ..< Suc (length s)])"

definition group0 :: "string \<Rightarrow> nat \<times> nat \<Rightarrow> string" where
  "group0 s m = take (snd m) (drop (fst m) s)"

definition suffix_ahead :: "rx list" where
  "suffix_ahead = [One is_hyphen, One is_digit, One is_hyphen, One is_digit]"

definition pattern_with_suffix :: "rx list" where
  "pattern_with_suffix = [Many1 is_upper, Many0 is_body, Ahead suffix_ahead]"

definition pattern_normal :: "rx list" where
  "pattern_normal = [Many1 is_upper, Many0 is_body]"

definition extract_order_number :: "string \<Rightarrow> string" where
  "extract_order_number order =
     (case re_search pattern_with_suffix order of
        Some m \<Rightarrow> group0 order m
      | None \<Rightarrow>
          (case re_search pattern_normal order of
             Some m \<Rightarrow> group0 order m
           | None \<Rightarrow> order))"

subsection \<open>The forms of an order string\<close>

text \<open>
  The suffix \<^verbatim>\<open>-<digit>-<digit>\<close> at the start of a string.
\<close>

definition has_suffix :: "string \<Rightarrow> bool" where
  "has_suffix t =
     (case t of a # b # c # d # _ \<Rightarrow> is_hyphen a \<and> is_digit b \<and> is_hyphen c \<and> is_digit d
      | _ \<Rightarrow> False)"

text \<open>
  A run of uppercase letters, digits and hyphens that starts with an uppercase letter:
  the \<open>n\<close> characters of \<open>s\<close> from position \<open>i\<close>. A suffixed run is one that is
  immediately followed by the suffix.
\<close>

definition body_run :: "string \<Rightarrow> nat \<Rightarrow> nat \<Rightarrow> bool" where
  "body_run s i n \<longleftrightarrow>
     i < length s \<and> is_upper (s ! i) \<and> 1 \<le> n \<and> i + n \<le> length s
     \<and> list_all is_body (take n (drop i s))"

definition suffixed_run :: "string \<Rightarrow> nat \<Rightarrow> nat \<Rightarrow> bool" where
  "suffixed_run s i n \<longleftrightarrow> body_run s i n \<and> has_suffix (drop (i + n) s)"

text \<open>
  Two abbreviations for the proofs: the matches of the part of the suffixed pattern after
  the leading letters, and the match lengths of the suffixed pattern at the start of a
  string.
\<close>

definition tail_matches :: "string \<Rightarrow> nat list" where
  "tail_matches u = matches [Many0 is_body, Ahead suffix_ahead] u"

definition anchored :: "string \<Rightarrow> nat \<Rightarrow> bool" where
  "anchored t e \<longleftrightarrow> 1 \<le> length (takeWhile is_upper t) \<and> 1 \<le> e
                    \<and> e \<le> length (takeWhile is_body t) \<and> has_suffix (drop e t)"

section \<open>The two databases\<close>

text \<open>
  A row of the upstream query for recently updated barcode creations. The columns
  \<open>task_code\<close> and \<open>order_code\<close> come from a left join and may be NULL
  (Python's \<^verbatim>\<open>None\<close>).
\<close>

record barcode_creation =
  bc_id :: int
  task_code :: "string option"
  inv_code :: string
  inv_name :: string
  order_code :: "string option"

text \<open>A row of the upstream table \<^verbatim>\<open>jgmes_barcode_data\<close>.\<close>

record barcode_data =
  bd_id :: int
  code :: string
  bd_bc_id :: int
  delete_flag :: int

text \<open>
  The upstream database as the job sees it: the rows the recency query returns, in the
  order it returns them (the joins and the time window are evaluated by the database),
  and the barcode table.
\<close>

record mes_db =
  recent_creations :: "barcode_creation list"
  barcode_table :: "barcode_data list"

definition query_mes_recently_barcode_creations :: "mes_db \<Rightarrow> barcode_creation list" where
  "query_mes_recently_barcode_creations mes = recent_creations mes"

text \<open>The result rows carry the columns \<open>bd_id\<close> and \<open>code\<close>.\<close>

definition query_mes_barcode_creation_barcodes :: "mes_db \<Rightarrow> int \<Rightarrow> (int \<times> string) list" where
  "query_mes_barcode_creation_barcodes mes bc =
     map (\<lambda>r. (bd_id r, code r))
       (filter (\<lambda>r. bd_bc_id r = bc \<and> delete_flag r = 0) (barcode_table mes))"

text \<open>
  The downstream tables: the serial-number library (imported rows), the stock table
  (incoming rows) and the outbound table (outgoing rows). A selection by order code is
  exact equality of the column with the parameter.
\<close>

record sn_row =
  r_order :: string
  r_item :: string
  r_sn :: string
  r_source :: string
  r_user :: string
  r_time :: string

record scan_row =
  s_order :: string
  s_sn :: string

record plus_db =
  sn_library :: "sn_row list"
  stock :: "scan_row list"
  outbound :: "scan_row list"

definition query_plus_imported_barcodes :: "plus_db \<Rightarrow> string \<Rightarrow> string list" where
  "query_plus_imported_barcodes conn oc =
     map r_sn (filter (\<lambda>r. r_order r = oc) (sn_library conn))"

definition query_plus_incoming_barcodes :: "plus_db \<Rightarrow> string \<Rightarrow> string list" where
  "query_plus_incoming_barcodes conn oc =
     map s_sn (filter (\<lambda>r. s_order r = oc) (stock conn))"

definition query_plus_outgoing_barcodes :: "plus_db \<Rightarrow> string \<Rightarrow> string list" where
  "query_plus_outgoing_barcodes conn oc =
     map s_sn (filter (\<lambda>r. s_order r = oc) (outbound conn))"

text \<open>
  The two write statements act on the view of the connection they are given and return
  the new view with the cursor's row count.
\<close>

definition delete_plus_imported_barcodes :: "plus_db \<Rightarrow> string \<Rightarrow> plus_db \<times> int" where
  "delete_plus_imported_barcodes conn oc =
     (conn\<lparr>sn_library := filter (\<lambda>r. r_order r \<noteq> oc) (sn_library conn)\<rparr>,
      int (length (filter (\<lambda>r. r_order r = oc) (sn_library conn))))"

text \<open>The source stamps both provenance columns with the Chinese word for robot (UTF-8).\<close>

definition robot :: string where
  "robot = map char_of [230, 156, 186, 229, 153, 168, 228, 186, 186 :: nat]"

text \<open>
  \<^verbatim>\<open>executemany\<close> returns at once on an empty parameter list, and the row count of
  the fresh cursor is then still \<open>-1\<close>.
\<close>

definition insert_plus_barcodes ::
    "string \<Rightarrow> plus_db \<Rightarrow> string \<Rightarrow> string \<Rightarrow> (int \<times> string) list \<Rightarrow> plus_db \<times> int" where
  "insert_plus_barcodes now conn oc item barcodes =
     (let params = map (\<lambda>barcode. \<lparr>r_order = oc, r_item = item, r_sn = snd barcode,
                                   r_source = robot, r_user = robot, r_time = now\<rparr>) barcodes
      in (conn\<lparr>sn_library := sn_library conn @ params\<rparr>,
          if params = [] then - 1 else int (length params)))"

section \<open>The reconciliation run\<close>

datatype error = TypeError | ConnectError | DeleteError | InsertError

text \<open>
  What the database does to the write transaction of one batch: nothing, refuse the
  connection, fail the delete, or fail the insert after some of the rows were sent.
  The read queries are taken to succeed, and one time stamp \<open>now\<close> serves all inserts
  of a run.
\<close>

datatype fault = NoFault | ConnectFault | DeleteFault | InsertFault nat

datatype level = INFO | WARNING | ERROR

datatype event =
    Started | MesConnected | PlusConnected | RecentCount nat
  | Processing "string option" string | MesCodes nat | PlusCodes nat
  | CountMismatchSkip | SameContentSkip | MovementSkip
  | Deleted int | Inserted int | ReimportOk
  | ConnectFailed error | ReimportFailed error | RunFailed error

datatype stmt = DeleteStmt string | InsertStmt string "string list"

fun stmt_order :: "stmt \<Rightarrow> string" where
  "stmt_order (DeleteStmt oc) = oc"
| "stmt_order (InsertStmt oc cs) = oc"

text \<open>
  The state of a run: the committed downstream database, the faults the database will
  inject into the write transactions still to come (one per transaction opened, none
  once the list is used up), the log, and the write statements issued so far.
\<close>

record world =
  plus :: plus_db
  faults :: "fault list"
  log :: "(level \<times> event) list"
  stmts :: "stmt list"

definition logging :: "level \<Rightarrow> event \<Rightarrow> world \<Rightarrow> world" where
  "logging l e w = w\<lparr>log := log w @ [(l, e)]\<rparr>"

definition issue :: "stmt \<Rightarrow> world \<Rightarrow> world" where
  "issue st w = w\<lparr>stmts := stmts w @ [st]\<rparr>"

definition next_fault :: "world \<Rightarrow> fault \<times> world" where
  "next_fault w = (case faults w of [] \<Rightarrow> (NoFault, w) | f # fs \<Rightarrow> (f, w\<lparr>faults := fs\<rparr>))"

text \<open>
  The write transaction of one batch (the inner \<^verbatim>\<open>try\<close> of the source, with the
  connection opened just before it). The connection is opened with autocommit off, so
  the delete and the insert change only the connection's own view; \<^verbatim>\<open>commit\<close>
  publishes the view, and closing the connection without a commit drops it. Every
  exception is logged and raised again.
\<close>

definition reimport ::
    "string \<Rightarrow> barcode_creation \<Rightarrow> string \<Rightarrow> (int \<times> string) list \<Rightarrow> world \<Rightarrow> error option \<times> world" where
  "reimport now barcode_creation oc mes_barcodes w0 =
     (let (f, w) = next_fault w0 in
      if f = ConnectFault then (Some ConnectError, logging ERROR (ConnectFailed ConnectError) w)
      else
        let plus_txn_conn = plus w;
            w1 = issue (DeleteStmt oc) w
        in if f = DeleteFault
           then (Some DeleteError, logging ERROR (ReimportFailed DeleteError) w1)
           else
             let (conn1, delete_count) = delete_plus_imported_barcodes plus_txn_conn oc;
                 w2 = logging INFO (Deleted delete_count) w1;
                 w3 = issue (InsertStmt oc (map snd mes_barcodes)) w2
             in (case f of
                   InsertFault k \<Rightarrow>
                     (Some InsertError, logging ERROR (ReimportFailed InsertError) w3)
                 | _ \<Rightarrow>
                     let (conn2, insert_count) =
                           insert_plus_barcodes now conn1 oc (inv_code barcode_creation) mes_barcodes;
                         w4 = logging INFO (Inserted insert_count) w3;
                         w5 = w4\<lparr>plus := conn2\<rparr>
                     in (None, logging INFO ReimportOk w5)))"

text \<open>
  One iteration of the loop over the recent barcode creations. \<open>None\<close> as the first
  component means the iteration ended normally (by \<^verbatim>\<open>continue\<close> or at the end of
  the body); \<open>Some e\<close> means it raised \<open>e\<close>. A NULL order code makes
  \<^verbatim>\<open>re.search\<close> raise a type error.
\<close>

definition process_batch ::
    "string \<Rightarrow> mes_db \<Rightarrow> barcode_creation \<Rightarrow> world \<Rightarrow> error option \<times> world" where
  "process_batch now mes barcode_creation w0 =
     (case order_code barcode_creation of
        None \<Rightarrow> (Some TypeError, w0)
      | Some raw \<Rightarrow>
          let oc = extract_order_number raw;
              w1 = logging INFO (Processing (task_code barcode_creation) oc) w0;
              mes_barcodes = query_mes_barcode_creation_barcodes mes (bc_id barcode_creation);
              mes_codes = map snd mes_barcodes;
              w2 = logging INFO (MesCodes (length mes_codes)) w1;
              plus_codes = query_plus_imported_barcodes (plus w2) oc;
              w3 = logging INFO (PlusCodes (length plus_codes)) w2
          in if length mes_codes \<noteq> length plus_codes
             then (None, logging WARNING CountMismatchSkip w3)
             else if set mes_codes = set plus_codes
             then (None, logging WARNING SameContentSkip w3)
             else if query_plus_incoming_barcodes (plus w3) oc \<noteq> []
                     \<or> query_plus_outgoing_barcodes (plus w3) oc \<noteq> []
             then (None, logging WARNING MovementSkip w3)
             else reimport now barcode_creation oc mes_barcodes w3)"

fun run_batches ::
    "string \<Rightarrow> mes_db \<Rightarrow> barcode_creation list \<Rightarrow> world \<Rightarrow> error option \<times> world" where
  "run_batches now mes [] w = (None, w)"
| "run_batches now mes (b # bs) w =
     (case process_batch now mes b w of
        (Some e, w') \<Rightarrow> (Some e, w')
      | (None, w') \<Rightarrow> run_batches now mes bs w')"

text \<open>
  The job: both connections are taken as established, the loop runs, and an exception
  that leaves it is logged once more and ends the run.
\<close>

definition main :: "string \<Rightarrow> mes_db \<Rightarrow> plus_db \<Rightarrow> fault list \<Rightarrow> error option \<times> world" where
  "main now mes db fs =
     (let w0 = \<lparr>plus = db, faults = fs,
                log = [(INFO, Started), (INFO, MesConnected), (INFO, PlusConnected)],
                stmts = []\<rparr>;
          barcode_creations = query_mes_recently_barcode_creations mes;
          w1 = logging INFO (RecentCount (length barcode_creations)) w0
      in case run_batches now mes barcode_creations w1 of
           (Some e, w) \<Rightarrow> (Some e, logging ERROR (RunFailed e) w)
         | (None, w) \<Rightarrow> (None, w))"

section \<open>Notions for the statements\<close>

text \<open>
  The order code a batch is reconciled under, and the upstream codes of the batch (the
  list \<^verbatim>\<open>mes_codes\<close> of the loop body).
\<close>

definition batch_order :: "barcode_creation \<Rightarrow> string option" where
  "batch_order b = map_option extract_order_number (order_code b)"

definition batch_codes :: "mes_db \<Rightarrow> barcode_creation \<Rightarrow> string list" where
  "batch_codes mes b = map snd (query_mes_barcode_creation_barcodes mes (bc_id b))"

text \<open>The movement lock: an incoming or an outgoing row exists for the order code.\<close>

definition movement_lock :: "plus_db \<Rightarrow> string \<Rightarrow> bool" where
  "movement_lock db oc \<longleftrightarrow>
     query_plus_incoming_barcodes db oc \<noteq> [] \<or> query_plus_outgoing_barcodes db oc \<noteq> []"

text \<open>
  A batch is settled in a downstream state when one of the three guards of the loop body
  ends its iteration.
\<close>

definition settled :: "mes_db \<Rightarrow> plus_db \<Rightarrow> barcode_creation \<Rightarrow> bool" where
  "settled mes db b \<longleftrightarrow>
     (case batch_order b of
        None \<Rightarrow> False
      | Some oc \<Rightarrow>
          length (batch_codes mes b) \<noteq> length (query_plus_imported_barcodes db oc)
          \<or> set (batch_codes mes b) = set (query_plus_imported_barcodes db oc)
          \<or> movement_lock db oc)"

subsection \<open>Example data\<close>

text \<open>
  Rows for the examples: a recent barcode creation with its raw order string, a generated
  barcode of a creation, an imported downstream row, and the state a run starts a batch
  in.
\<close>

definition creation :: "int \<Rightarrow> string \<Rightarrow> barcode_creation" where
  "creation bc raw = \<lparr>bc_id = bc, task_code = Some ''TASK'', inv_code = ''ITEM'',
                      inv_name = ''item'', order_code = Some raw\<rparr>"

definition generated :: "int \<Rightarrow> int \<Rightarrow> string \<Rightarrow> barcode_data" where
  "generated bc n c = \<lparr>bd_id = n, code = c, bd_bc_id = bc, delete_flag = 0\<rparr>"

definition imported :: "string \<Rightarrow> string \<Rightarrow> sn_row" where
  "imported oc c = \<lparr>r_order = oc, r_item = ''ITEM'', r_sn = c, r_source = ''manual'',
                    r_user = ''clerk'', r_time = ''2024-01-01 00:00:00''\<rparr>"

definition fresh :: "plus_db \<Rightarrow> fault list \<Rightarrow> world" where
  "fresh db fs = \<lparr>plus = db, faults = fs, log = [], stmts = []\<rparr>"

text \<open>
  The end-to-end scenario of the specification: the batch of order \<^verbatim>\<open>ORD-5\<close> has
  the codes A1, A2, A3 upstream and A1, A2 downstream, and nothing has moved.
\<close>

definition mes_grown :: mes_db where
  "mes_grown = \<lparr>recent_creations = [creation 1 ''ORD-5''],
                barcode_table = [generated 1 1 ''A1'', generated 1 2 ''A2'', generated 1 3 ''A3'']\<rparr>"

definition db_grown :: plus_db where
  "db_grown = \<lparr>sn_library = [imported ''ORD-5'' ''A1'', imported ''ORD-5'' ''A2''],
               stock = [], outbound = []\<rparr>"

text \<open>
  Two batches whose codes were regenerated with the same count: A1, A3 against A1, A2 for
  \<^verbatim>\<open>ORD-5\<close>, and B2 against B1 for \<^verbatim>\<open>ORD-6\<close>. In the second downstream
  state a serial of \<^verbatim>\<open>ORD-5\<close> has been received into stock.
\<close>

definition mes_swapped :: mes_db where
  "mes_swapped = \<lparr>recent_creations = [creation 1 ''ORD-5'', creation 2 ''ORD-6''],
                  barcode_table = [generated 1 1 ''A1'', generated 1 2 ''A3'', generated 2 3 ''B2'']\<rparr>"

definition db_swapped :: plus_db where
  "db_swapped = \<lparr>sn_library = [imported ''ORD-5'' ''A1'', imported ''ORD-5'' ''A2'',
                               imported ''ORD-6'' ''B1''],
                 stock = [], outbound = []\<rparr>"

definition db_moved :: plus_db where
  "db_moved = db_swapped\<lparr>stock := [\<lparr>s_order = ''ORD-5'', s_sn = ''A1''\<rparr>]\<rparr>"

text \<open>
  Two line items of one order: the raw order strings differ in the suffix only, so both
  batches are reconciled under \<^verbatim>\<open>ABC-123\<close>.
\<close>

definition mes_split :: mes_db where
  "mes_split = \<lparr>recent_creations = [creation 1 ''ABC-123-1-1'', creation 2 ''ABC-123-1-2''],
                barcode_table = [generated 1 1 ''S1'', generated 2 2 ''S2'']\<rparr>"

definition db_split :: plus_db where
  "db_split = \<lparr>sn_library = [imported ''ABC-123'' ''S1''], stock = [], outbound = []\<rparr>"

text \<open>
  A batch in which the code K1 was generated twice, against the two distinct codes K1, K2
  downstream.
\<close>

definition mes_twice :: mes_db where
  "mes_twice = \<lparr>recent_creations = [creation 1 ''ORD-7''],
                barcode_table = [generated 1 1 ''K1'', generated 1 2 ''K1'']\<rparr>"

definition db_twice :: plus_db where
  "db_twice = \<lparr>sn_library = [imported ''ORD-7'' ''K1'', imported ''ORD-7'' ''K2''],
               stock = [], outbound = []\<rparr>"

section \<open>Properties of the order-code extraction\<close>

subsection \<open>The matcher on the two patterns\<close>

lemma matches_suffix_ahead: "matches suffix_ahead t = (if has_suffix t then [4] else [])"
  by (auto simp: suffix_ahead_def has_suffix_def split: list.splits)

lemma take_le_takeWhile:
  "k \<le> length (takeWhile P t) \<longleftrightarrow> k \<le> length t \<and> list_all P (take k t)"
proof (induction t arbitrary: k)
  case Nil
  then show ?case by simp
next
  case (Cons a t)
  then show ?case by (cases k) auto
qed

lemma takeWhile_split:
  "k \<le> length (takeWhile P t) \<Longrightarrow> k + length (takeWhile P (drop k t)) = length (takeWhile P t)"
proof (induction t arbitrary: k)
  case Nil
  then show ?case by simp
next
  case (Cons a t)
  then show ?case by (cases k) (auto split: if_splits)
qed

lemma upper_body: "is_upper c \<Longrightarrow> is_body c"
  by (simp add: is_body_def)

lemma upper_le_body: "length (takeWhile is_upper t) \<le> length (takeWhile is_body t)"
  by (induction t) (auto simp: upper_body)

lemma concat_rev_upt_hd:
  "concat (map g (rev [a..<b])) \<noteq> [] \<Longrightarrow>
     \<exists>j. a \<le> j \<and> j < b \<and> g j \<noteq> [] \<and> hd (concat (map g (rev [a..<b]))) = hd (g j)
         \<and> (\<forall>i. j < i \<and> i < b \<longrightarrow> g i = [])"
proof (induction b)
  case 0
  then show ?case by simp
next
  case (Suc b)
  show ?case
  proof (cases "a \<le> b")
    case False
    with Suc.prems show ?thesis by simp
  next
    case True
    then have unf: "concat (map g (rev [a..<Suc b])) = g b @ concat (map g (rev [a..<b]))"
      by simp
    show ?thesis
    proof (cases "g b = []")
      case False
      with True unf show ?thesis
        by (intro exI[of _ b]) auto
    next
      case gb: True
      with unf Suc.prems have ne: "concat (map g (rev [a..<b])) \<noteq> []" by simp
      from Suc.IH[OF ne] obtain j where j: "a \<le> j" "j < b" "g j \<noteq> []"
        "hd (concat (map g (rev [a..<b]))) = hd (g j)" "\<forall>i. j < i \<and> i < b \<longrightarrow> g i = []"
        by blast
      have "\<forall>i. j < i \<and> i < Suc b \<longrightarrow> g i = []"
        using j(5) gb by (auto simp: less_Suc_eq)
      with j unf gb show ?thesis
        by (intro exI[of _ j]) auto
    qed
  qed
qed

lemma set_concat_rev_upt:
  "set (concat (map g (rev [a..<b]))) = (\<Union>k\<in>{a..<b}. set (g k))"
  by simp

lemma concat_rev_upt_nonempty:
  "x \<in> set (concat (map g (rev [a..<b]))) \<Longrightarrow> concat (map g (rev [a..<b])) \<noteq> []"
  by (metis empty_iff empty_set)

lemma matches_ahead_only:
  "matches [Ahead suffix_ahead] v = (if has_suffix v then [0] else [])"
  by (simp add: matches_suffix_ahead)

lemma tail_matches_unfold:
  "tail_matches u =
     concat (map (\<lambda>m. if has_suffix (drop m u) then [m] else [])
                 (rev [0 ..< Suc (length (takeWhile is_body u))]))"
  unfolding tail_matches_def matches.simps(3) matches_ahead_only
  by (rule arg_cong[where f = concat], rule map_cong) auto

lemma set_tail_matches:
  "set (tail_matches u) = {m. m \<le> length (takeWhile is_body u) \<and> has_suffix (drop m u)}"
  unfolding tail_matches_unfold set_concat_rev_upt by (auto simp: less_Suc_eq_le split: if_splits)

lemma hd_tail_matches:
  assumes "m \<in> set (tail_matches u)"
  shows "m \<le> hd (tail_matches u)"
proof -
  let ?g = "\<lambda>m. if has_suffix (drop m u) then [m] else []"
  let ?b = "Suc (length (takeWhile is_body u))"
  from assms have ne: "concat (map ?g (rev [0 ..< ?b])) \<noteq> []"
    unfolding tail_matches_unfold by (rule concat_rev_upt_nonempty)
  from concat_rev_upt_hd[OF ne] obtain j where
    j: "j < ?b" "?g j \<noteq> []" "hd (tail_matches u) = hd (?g j)" "\<forall>i. j < i \<and> i < ?b \<longrightarrow> ?g i = []"
    unfolding tail_matches_unfold by blast
  from j(2,3) have hd: "hd (tail_matches u) = j" by (simp split: if_splits)
  from assms have m: "m < ?b" "has_suffix (drop m u)"
    by (auto simp: set_tail_matches)
  show ?thesis
  proof (rule ccontr)
    assume "\<not> m \<le> hd (tail_matches u)"
    with hd have "j < m" by simp
    with j(4) m(1) have "?g m = []" by blast
    with m(2) show False by simp
  qed
qed

lemma pws_unfold:
  "matches pattern_with_suffix t =
     concat (map (\<lambda>k. map ((+) k) (tail_matches (drop k t)))
                 (rev [1 ..< Suc (length (takeWhile is_upper t))]))"
  by (simp only: pattern_with_suffix_def matches.simps(4) tail_matches_def)

lemma set_pws: "set (matches pattern_with_suffix t) = {e. anchored t e}"
proof (intro set_eqI iffI; clarify)
  fix e assume "e \<in> set (matches pattern_with_suffix t)"
  then obtain k m where k: "1 \<le> k" "k \<le> length (takeWhile is_upper t)"
      and m: "m \<in> set (tail_matches (drop k t))" and e: "e = k + m"
    unfolding pws_unfold set_concat_rev_upt by (auto simp: less_Suc_eq_le)
  from k(2) upper_le_body[of t] have "k \<le> length (takeWhile is_body t)" by simp
  from takeWhile_split[OF this] m
  have "k + m \<le> length (takeWhile is_body t)" "has_suffix (drop (k + m) t)"
    by (auto simp: set_tail_matches add.commute)
  with k e show "anchored t e" by (simp add: anchored_def)
next
  fix e assume a: "anchored t e"
  then have one: "1 \<le> length (takeWhile is_upper t)" and e: "1 \<le> e"
      "e \<le> length (takeWhile is_body t)" "has_suffix (drop e t)"
    by (simp_all add: anchored_def)
  from one upper_le_body[of t] have "1 \<le> length (takeWhile is_body t)" by simp
  from takeWhile_split[OF this] e
  have "e - 1 \<in> set (tail_matches (drop 1 t))"
    by (auto simp: set_tail_matches)
  with one e(1) show "e \<in> set (matches pattern_with_suffix t)"
    unfolding pws_unfold set_concat_rev_upt
    by (auto simp: less_Suc_eq_le intro!: bexI[of _ 1] image_eqI[of _ _ "e - 1"])
qed

lemma hd_pws:
  assumes "anchored t e"
  shows "e \<le> hd (matches pattern_with_suffix t)"
proof -
  let ?g = "\<lambda>k. map ((+) k) (tail_matches (drop k t))"
  let ?b = "Suc (length (takeWhile is_upper t))"
  from assms have "e \<in> set (matches pattern_with_suffix t)" by (simp add: set_pws)
  then have ne: "concat (map ?g (rev [1 ..< ?b])) \<noteq> []"
    unfolding pws_unfold by (rule concat_rev_upt_nonempty)
  from concat_rev_upt_hd[OF ne] obtain j where
    j: "1 \<le> j" "j < ?b" "?g j \<noteq> []" "hd (matches pattern_with_suffix t) = hd (?g j)"
    unfolding pws_unfold by blast
  from j(3) have tne: "tail_matches (drop j t) \<noteq> []" by simp
  with j(4) have hd: "hd (matches pattern_with_suffix t) = j + hd (tail_matches (drop j t))"
    by (simp add: hd_map)
  show ?thesis
  proof (cases "e \<le> j")
    case True
    with hd show ?thesis by simp
  next
    case False
    from j(2) upper_le_body[of t] have "j \<le> length (takeWhile is_body t)" by simp
    from takeWhile_split[OF this] assms False
    have "e - j \<in> set (tail_matches (drop j t))"
      by (auto simp: set_tail_matches anchored_def)
    from hd_tail_matches[OF this] hd False show ?thesis by simp
  qed
qed

lemma anchored_iff: "anchored (drop i s) n \<longleftrightarrow> suffixed_run s i n"
  by (auto simp: anchored_def suffixed_run_def body_run_def take_le_takeWhile[of _ is_body]
      Suc_le_eq takeWhile_eq_Nil_iff hd_drop_conv_nth add.commute
      simp flip: length_greater_0_conv)

lemma pn_unfold:
  "matches pattern_normal t =
     concat (map (\<lambda>k. map ((+) k) (rev [0 ..< Suc (length (takeWhile is_body (drop k t)))]))
                 (rev [1 ..< Suc (length (takeWhile is_upper t))]))"
  by (simp add: pattern_normal_def del: upt_Suc)

lemma pn_empty: "matches pattern_normal t = [] \<longleftrightarrow> length (takeWhile is_upper t) = 0"
  unfolding pn_unfold by (cases "length (takeWhile is_upper t)") auto

lemma pn_hd:
  assumes "1 \<le> length (takeWhile is_upper t)"
  shows "hd (matches pattern_normal t) = length (takeWhile is_body t)"
proof -
  let ?K = "length (takeWhile is_upper t)"
  from assms have "rev [1 ..< Suc ?K] = ?K # rev [1 ..< ?K]" by simp
  then have "hd (matches pattern_normal t) = ?K + length (takeWhile is_body (drop ?K t))"
    unfolding pn_unfold by simp
  also have "\<dots> = length (takeWhile is_body t)"
    by (rule takeWhile_split) (rule upper_le_body)
  finally show ?thesis .
qed

lemma pws_empty_no_upper:
  "length (takeWhile is_upper t) = 0 \<Longrightarrow> matches pattern_with_suffix t = []"
  unfolding pws_unfold by simp

lemma re_search_Some:
  "re_search p s = Some (i, n) \<longleftrightarrow>
     i \<le> length s \<and> matches p (drop i s) \<noteq> [] \<and> n = hd (matches p (drop i s))
     \<and> (\<forall>j<i. matches p (drop j s) = [])"
proof -
  have "find (\<lambda>i. matches p (drop i s) \<noteq> []) [0 ..< Suc (length s)] = Some i \<longleftrightarrow>
        i \<le> length s \<and> matches p (drop i s) \<noteq> [] \<and> (\<forall>j<i. matches p (drop j s) = [])"
    unfolding find_Some_iff
    by (auto simp: less_Suc_eq_le nth_upt simp del: upt_Suc)
  then show ?thesis
    unfolding re_search_def by (cases "find (\<lambda>i. matches p (drop i s) \<noteq> []) [0 ..< Suc (length s)]") auto
qed

lemma re_search_None:
  "re_search p s = None \<longleftrightarrow> (\<forall>i\<le>length s. matches p (drop i s) = [])"
  unfolding re_search_def by (auto simp: find_None_iff less_Suc_eq_le simp del: upt_Suc)

lemma extract_cases:
  "(\<exists>i n. extract_order_number s = take n (drop i s)) \<or> extract_order_number s = s"
  unfolding extract_order_number_def group0_def
  by (auto split: option.splits)

lemma no_upper_drop:
  assumes "\<forall>c\<in>set s. \<not> is_upper c"
  shows "length (takeWhile is_upper (drop i s)) = 0"
proof (cases "drop i s")
  case Nil
  then show ?thesis by simp
next
  case (Cons a u)
  then have "a \<in> set (drop i s)" by simp
  then have "a \<in> set s" by (rule in_set_dropD)
  with assms Cons show ?thesis by simp
qed

text \<open>
  Claim C10. For every input string, the extracted order code is a contiguous substring of
  the input: the extraction is a total function, it invents no character, and it returns
  the input unchanged when the input holds no uppercase letter.
\<close>

theorem extract_sublist:
  "sublist (extract_order_number s) s
   \<and> ((\<forall>c\<in>set s. \<not> is_upper c) \<longrightarrow> extract_order_number s = s)"
proof
  from extract_cases[of s] show "sublist (extract_order_number s) s"
  proof
    assume "\<exists>i n. extract_order_number s = take n (drop i s)"
    then obtain i n where e: "extract_order_number s = take n (drop i s)" by blast
    have "sublist (take n (drop i s)) (drop i s)" by simp
    moreover have "sublist (drop i s) s" by simp
    ultimately show ?thesis unfolding e by (rule sublist_order.order.trans)
  next
    assume "extract_order_number s = s"
    then show ?thesis by simp
  qed
next
  show "(\<forall>c\<in>set s. \<not> is_upper c) \<longrightarrow> extract_order_number s = s"
  proof
    assume nu: "\<forall>c\<in>set s. \<not> is_upper c"
    have "re_search pattern_with_suffix s = None"
      unfolding re_search_None using no_upper_drop[OF nu] by (simp add: pws_empty_no_upper)
    moreover have "re_search pattern_normal s = None"
      unfolding re_search_None using no_upper_drop[OF nu] by (simp add: pn_empty)
    ultimately show "extract_order_number s = s"
      by (simp add: extract_order_number_def)
  qed
qed

text \<open>The hypothesis of C10 holds at a string of digits and hyphens.\<close>

theorem extract_sublist_witness:
  "list_all (\<lambda>c. \<not> is_upper c) ''12-1-2''
   \<and> sublist (extract_order_number ''12-1-2'') ''12-1-2''
   \<and> extract_order_number ''12-1-2'' = ''12-1-2''"
proof -
  have nu: "\<forall>c\<in>set ''12-1-2''. \<not> is_upper c" by (simp add: is_upper_def)
  with extract_sublist[of "''12-1-2''"] show ?thesis by (simp add: list_all_iff)
qed

lemma pws_nonempty_iff: "matches pattern_with_suffix (drop i s) \<noteq> [] \<longleftrightarrow> (\<exists>n. suffixed_run s i n)"
proof -
  have "matches pattern_with_suffix (drop i s) \<noteq> [] \<longleftrightarrow> set (matches pattern_with_suffix (drop i s)) \<noteq> {}"
    by simp
  also have "\<dots> \<longleftrightarrow> (\<exists>n. suffixed_run s i n)"
    unfolding set_pws anchored_iff by blast
  finally show ?thesis .
qed

lemma suffixed_run_bound: "suffixed_run s i n \<Longrightarrow> i \<le> length s"
  by (simp add: suffixed_run_def body_run_def)

text \<open>
  Claim C8, as amended. When some run of uppercase letters, digits and hyphens that starts
  with an uppercase letter is immediately followed by a suffix \<^verbatim>\<open>-<digit>-<digit>\<close>,
  the extraction returns such a run without the suffix: the one at the leftmost possible
  start and, from that start, the longest. In particular \<^verbatim>\<open>ABC-123-1-2\<close> gives
  \<^verbatim>\<open>ABC-123\<close>.
\<close>

theorem extract_suffixed_form:
  assumes "suffixed_run s i n"
  shows "(\<exists>i' n'. extract_order_number s = take n' (drop i' s)
            \<and> suffixed_run s i' n'
            \<and> (\<forall>j m. suffixed_run s j m \<longrightarrow> i' \<le> j)
            \<and> (\<forall>m. suffixed_run s i' m \<longrightarrow> m \<le> n'))
         \<and> extract_order_number ''ABC-123-1-2'' = ''ABC-123''"
proof
  from assms have "matches pattern_with_suffix (drop i s) \<noteq> []" "i \<le> length s"
    by (auto simp: pws_nonempty_iff suffixed_run_bound)
  then have "re_search pattern_with_suffix s \<noteq> None"
    unfolding re_search_None by blast
  then obtain i' n' where r: "re_search pattern_with_suffix s = Some (i', n')"
    by auto
  then have ne: "matches pattern_with_suffix (drop i' s) \<noteq> []"
      and hd: "n' = hd (matches pattern_with_suffix (drop i' s))"
      and first: "\<forall>j<i'. matches pattern_with_suffix (drop j s) = []"
    unfolding re_search_Some by simp_all
  from r have "extract_order_number s = take n' (drop i' s)"
    by (simp add: extract_order_number_def group0_def)
  moreover from ne hd have "n' \<in> set (matches pattern_with_suffix (drop i' s))"
    by simp
  then have "suffixed_run s i' n'"
    unfolding set_pws anchored_iff by simp
  moreover have "\<forall>j m. suffixed_run s j m \<longrightarrow> i' \<le> j"
  proof (intro allI impI)
    fix j m assume "suffixed_run s j m"
    then have "matches pattern_with_suffix (drop j s) \<noteq> []"
      unfolding pws_nonempty_iff by blast
    with first show "i' \<le> j" by (meson not_le)
  qed
  moreover have "\<forall>m. suffixed_run s i' m \<longrightarrow> m \<le> n'"
    unfolding hd by (auto simp flip: anchored_iff intro: hd_pws)
  ultimately show "\<exists>i' n'. extract_order_number s = take n' (drop i' s)
            \<and> suffixed_run s i' n'
            \<and> (\<forall>j m. suffixed_run s j m \<longrightarrow> i' \<le> j)
            \<and> (\<forall>m. suffixed_run s i' m \<longrightarrow> m \<le> n')"
    by blast
next
  show "extract_order_number ''ABC-123-1-2'' = ''ABC-123''" by code_simp
qed

text \<open>The hypothesis of C8 holds at the example of the specification.\<close>

theorem extract_suffixed_form_witness:
  "suffixed_run ''ABC-123-1-2'' 0 7
   \<and> (\<exists>i' n'. extract_order_number ''ABC-123-1-2'' = take n' (drop i' ''ABC-123-1-2'')
            \<and> suffixed_run ''ABC-123-1-2'' i' n'
            \<and> (\<forall>j m. suffixed_run ''ABC-123-1-2'' j m \<longrightarrow> i' \<le> j)
            \<and> (\<forall>m. suffixed_run ''ABC-123-1-2'' i' m \<longrightarrow> m \<le> n'))"
proof -
  have h: "suffixed_run ''ABC-123-1-2'' 0 7" by code_simp
  from extract_suffixed_form[OF h] h show ?thesis by blast
qed

text \<open>
  Claim C8 as stated speaks of every string that contains the suffix. The string
  \<^verbatim>\<open>12-1-2\<close> contains it after the run \<^verbatim>\<open>12\<close>, and the extraction returns
  the string whole, suffix included: no uppercase letter starts a run there.
\<close>

theorem extract_suffix_kept_counterexample:
  "has_suffix (drop 2 ''12-1-2'') \<and> extract_order_number ''12-1-2'' = ''12-1-2''
   \<and> extract_order_number ''12-1-2'' \<noteq> ''12''"
  by code_simp

text \<open>
  Claim C3, as amended. For every string that contains no suffix
  \<^verbatim>\<open>-<digit>-<digit>\<close> and starts with an uppercase letter, the extraction returns the
  longest run of uppercase letters, digits and hyphens at the start of the string. In
  particular \<^verbatim>\<open>XYZ99-Note\<close> gives \<^verbatim>\<open>XYZ99-N\<close>: the hyphen and the
  uppercase \<^verbatim>\<open>N\<close> belong to the run.
\<close>

theorem extract_plain_form:
  assumes "\<forall>i. \<not> has_suffix (drop i s)" and "s = c # cs" and "is_upper c"
  shows "extract_order_number s = takeWhile is_body s
         \<and> extract_order_number ''XYZ99-Note'' = ''XYZ99-N''"
proof
  have "\<forall>i. matches pattern_with_suffix (drop i s) = []"
  proof
    fix i
    from assms(1) have "\<not> (\<exists>n. suffixed_run s i n)" by (simp add: suffixed_run_def)
    then show "matches pattern_with_suffix (drop i s) = []"
      using pws_nonempty_iff[of i s] by blast
  qed
  then have none: "re_search pattern_with_suffix s = None"
    unfolding re_search_None by blast
  from assms(2,3) have one: "1 \<le> length (takeWhile is_upper s)" by simp
  then have "matches pattern_normal (drop 0 s) \<noteq> []"
    using pn_empty[of s] by auto
  then have "re_search pattern_normal s = Some (0, hd (matches pattern_normal (drop 0 s)))"
    unfolding re_search_Some by simp
  with one have "re_search pattern_normal s = Some (0, length (takeWhile is_body s))"
    by (simp add: pn_hd)
  with none show "extract_order_number s = takeWhile is_body s"
    by (simp add: extract_order_number_def group0_def takeWhile_eq_take[symmetric])
next
  show "extract_order_number ''XYZ99-Note'' = ''XYZ99-N''" by code_simp
qed

text \<open>The hypotheses of C3 hold at \<^verbatim>\<open>XYZ99\<close>.\<close>

theorem extract_plain_form_witness:
  "(\<forall>i. \<not> has_suffix (drop i ''XYZ99'')) \<and> is_upper CHR ''X''
   \<and> extract_order_number ''XYZ99'' = takeWhile is_body ''XYZ99''"
proof -
  have a: "\<forall>i. \<not> has_suffix (drop i ''XYZ99'')"
  proof
    fix i :: nat
    have "i < 5 \<or> 5 \<le> i" by arith
    then show "\<not> has_suffix (drop i ''XYZ99'')"
      by (auto simp: has_suffix_def is_hyphen_def less_Suc_eq numeral_eq_Suc drop_Cons' split: list.splits)
  qed
  have b: "is_upper CHR ''X''" by code_simp
  from extract_plain_form[OF a _ b, of "''YZ99''"] a b show ?thesis by simp
qed

text \<open>
  Claim C3 as stated gives \<^verbatim>\<open>XYZ99\<close> for \<^verbatim>\<open>XYZ99-Note\<close>; the code does not.
\<close>

theorem extract_plain_example_counterexample:
  "extract_order_number ''XYZ99-Note'' = ''XYZ99-N''
   \<and> extract_order_number ''XYZ99-Note'' \<noteq> ''XYZ99''"
  by code_simp

section \<open>Properties of the reconciliation run\<close>

lemmas engine_defs =
  process_batch_def reimport_def next_fault_def logging_def issue_def Let_def
  delete_plus_imported_barcodes_def insert_plus_barcodes_def batch_order_def batch_codes_def
  movement_lock_def

lemma process_batch_stock:
  "stock (plus (snd (process_batch now mes b w))) = stock (plus w)
   \<and> outbound (plus (snd (process_batch now mes b w))) = outbound (plus w)"
  by (auto simp: engine_defs split: option.splits list.splits fault.splits)

lemma process_batch_other_orders:
  assumes "batch_order b \<noteq> Some oc"
  shows "filter (\<lambda>r. r_order r = oc) (sn_library (plus (snd (process_batch now mes b w))))
         = filter (\<lambda>r. r_order r = oc) (sn_library (plus w))"
  using assms
  by (auto simp: engine_defs split: option.splits list.splits fault.splits intro!: filter_cong)

lemma process_batch_stmts:
  "\<exists>new. stmts (snd (process_batch now mes b w)) = stmts w @ new
     \<and> (\<forall>st\<in>set new. batch_order b = Some (stmt_order st)
                       \<and> \<not> movement_lock (plus w) (stmt_order st))"
  by (auto simp: engine_defs split: option.splits list.splits fault.splits)

lemma settled_skips:
  assumes "settled mes (plus w) b"
  shows "fst (process_batch now mes b w) = None
         \<and> plus (snd (process_batch now mes b w)) = plus w
         \<and> stmts (snd (process_batch now mes b w)) = stmts w
         \<and> faults (snd (process_batch now mes b w)) = faults w"
  using assms
  by (auto simp: settled_def engine_defs split: option.splits)

lemma reimported_codes:
  "query_plus_imported_barcodes
     (fst (insert_plus_barcodes now (fst (delete_plus_imported_barcodes db oc)) oc item bs)) oc
   = map snd bs"
  by (simp add: query_plus_imported_barcodes_def insert_plus_barcodes_def
      delete_plus_imported_barcodes_def Let_def comp_def)

lemma process_batch_reimports:
  assumes "order_code b = Some raw"
      and "length (batch_codes mes b)
           = length (query_plus_imported_barcodes (plus w) (extract_order_number raw))"
      and "set (batch_codes mes b)
           \<noteq> set (query_plus_imported_barcodes (plus w) (extract_order_number raw))"
      and "\<not> movement_lock (plus w) (extract_order_number raw)"
      and "fst (process_batch now mes b w) = None"
  shows "plus (snd (process_batch now mes b w))
         = fst (insert_plus_barcodes now
                  (fst (delete_plus_imported_barcodes (plus w) (extract_order_number raw)))
                  (extract_order_number raw) (inv_code b)
                  (query_mes_barcode_creation_barcodes mes (bc_id b)))"
  using assms
  by (auto simp: process_batch_def reimport_def next_fault_def logging_def issue_def Let_def
      batch_codes_def movement_lock_def split_beta
      split: list.splits fault.splits if_splits)

lemma not_settled_guards:
  assumes "order_code b = Some raw" and "\<not> settled mes db b"
  shows "length (batch_codes mes b)
           = length (query_plus_imported_barcodes db (extract_order_number raw))
         \<and> set (batch_codes mes b)
           \<noteq> set (query_plus_imported_barcodes db (extract_order_number raw))
         \<and> \<not> movement_lock db (extract_order_number raw)"
  using assms by (auto simp: settled_def batch_order_def)

lemma process_batch_settles:
  assumes "fst (process_batch now mes b w) = None"
  shows "settled mes (plus (snd (process_batch now mes b w))) b"
proof (cases "order_code b")
  case None
  with assms show ?thesis by (simp add: process_batch_def)
next
  case (Some raw)
  let ?oc = "extract_order_number raw"
  show ?thesis
  proof (cases "settled mes (plus w) b")
    case True
    with settled_skips[OF True, of now] show ?thesis by simp
  next
    case False
    from not_settled_guards[OF Some False] assms
    have "plus (snd (process_batch now mes b w))
          = fst (insert_plus_barcodes now (fst (delete_plus_imported_barcodes (plus w) ?oc)) ?oc
                   (inv_code b) (query_mes_barcode_creation_barcodes mes (bc_id b)))"
      by (intro process_batch_reimports[OF Some]) simp_all
    then have "query_plus_imported_barcodes (plus (snd (process_batch now mes b w))) ?oc
               = batch_codes mes b"
      by (simp add: reimported_codes batch_codes_def)
    with Some show ?thesis by (simp add: settled_def batch_order_def)
  qed
qed

lemma settled_cong:
  assumes "stock db' = stock db" and "outbound db' = outbound db"
      and "batch_order b = Some oc"
      and "filter (\<lambda>r. r_order r = oc) (sn_library db') = filter (\<lambda>r. r_order r = oc) (sn_library db)"
  shows "settled mes db' b = settled mes db b"
  using assms
  by (simp add: settled_def movement_lock_def query_plus_imported_barcodes_def
      query_plus_incoming_barcodes_def query_plus_outgoing_barcodes_def)

lemma process_batch_keeps_settled:
  assumes "settled mes (plus w) b'" and "batch_order b \<noteq> batch_order b'"
  shows "settled mes (plus (snd (process_batch now mes b w))) b'"
proof -
  from assms(1) obtain oc where oc: "batch_order b' = Some oc"
    by (auto simp: settled_def split: option.splits)
  with assms(2) have "batch_order b \<noteq> Some oc" by simp
  from process_batch_other_orders[OF this, of now mes w] process_batch_stock[of now mes b w] oc
  have "settled mes (plus (snd (process_batch now mes b w))) b' = settled mes (plus w) b'"
    by (intro settled_cong[where oc = oc]) simp_all
  with assms(1) show ?thesis by simp
qed

lemma run_batches_keeps_settled:
  assumes "settled mes (plus w) b'" and "batch_order b' \<notin> set (map batch_order bs)"
  shows "settled mes (plus (snd (run_batches now mes bs w))) b'"
  using assms
proof (induction bs arbitrary: w)
  case Nil
  then show ?case by simp
next
  case (Cons b bs)
  from Cons.prems have ne: "batch_order b \<noteq> batch_order b'"
      and rest: "batch_order b' \<notin> set (map batch_order bs)"
    by auto
  obtain r w1 where pb: "process_batch now mes b w = (r, w1)" by (cases "process_batch now mes b w")
  from process_batch_keeps_settled[OF Cons.prems(1) ne, of now] pb
  have s1: "settled mes (plus w1) b'" by simp
  show ?case
  proof (cases r)
    case None
    with pb Cons.IH[OF s1 rest] show ?thesis by simp
  next
    case (Some e)
    with pb s1 show ?thesis by simp
  qed
qed

lemma run_batches_settles:
  assumes "fst (run_batches now mes bs w) = None" and "distinct (map batch_order bs)"
  shows "\<forall>b\<in>set bs. settled mes (plus (snd (run_batches now mes bs w))) b"
  using assms
proof (induction bs arbitrary: w)
  case Nil
  then show ?case by simp
next
  case (Cons b bs)
  obtain r w1 where pb: "process_batch now mes b w = (r, w1)" by (cases "process_batch now mes b w")
  with Cons.prems(1) have r: "r = None" by (cases r) auto
  with pb have run: "run_batches now mes (b # bs) w = run_batches now mes bs w1" by simp
  from Cons.prems run have "fst (run_batches now mes bs w1) = None" "distinct (map batch_order bs)"
    by simp_all
  from Cons.IH[OF this] have tail: "\<forall>b'\<in>set bs. settled mes (plus (snd (run_batches now mes bs w1))) b'" .
  from process_batch_settles[of now mes b w] pb r have "settled mes (plus w1) b" by simp
  moreover from Cons.prems(2) have "batch_order b \<notin> set (map batch_order bs)" by simp
  ultimately have "settled mes (plus (snd (run_batches now mes bs w1))) b"
    by (rule run_batches_keeps_settled)
  with tail run show ?case by simp
qed

lemma run_batches_all_settled:
  assumes "\<forall>b\<in>set bs. settled mes (plus w) b"
  shows "fst (run_batches now mes bs w) = None
         \<and> plus (snd (run_batches now mes bs w)) = plus w
         \<and> stmts (snd (run_batches now mes bs w)) = stmts w"
  using assms
proof (induction bs arbitrary: w)
  case Nil
  then show ?case by simp
next
  case (Cons b bs)
  obtain r w1 where pb: "process_batch now mes b w = (r, w1)" by (cases "process_batch now mes b w")
  from Cons.prems have "settled mes (plus w) b" by simp
  from settled_skips[OF this, of now] pb
  have w1: "r = None" "plus w1 = plus w" "stmts w1 = stmts w" by simp_all
  with Cons.prems have "\<forall>b\<in>set bs. settled mes (plus w1) b" by simp
  from Cons.IH[OF this] pb w1 show ?case by simp
qed

lemma main_unfold:
  "main now mes db fs =
     (let r = run_batches now mes (recent_creations mes)
                \<lparr>plus = db, faults = fs,
                 log = [(INFO, Started), (INFO, MesConnected), (INFO, PlusConnected),
                        (INFO, RecentCount (length (recent_creations mes)))],
                 stmts = []\<rparr>
      in (fst r, case fst r of None \<Rightarrow> snd r | Some e \<Rightarrow> logging ERROR (RunFailed e) (snd r)))"
  by (simp add: main_def Let_def logging_def query_mes_recently_barcode_creations_def
      split: prod.splits option.splits)

lemma main_plus_stmts:
  "plus (snd (main now mes db fs)) =
     plus (snd (run_batches now mes (recent_creations mes)
                \<lparr>plus = db, faults = fs,
                 log = [(INFO, Started), (INFO, MesConnected), (INFO, PlusConnected),
                        (INFO, RecentCount (length (recent_creations mes)))],
                 stmts = []\<rparr>))
   \<and> stmts (snd (main now mes db fs)) =
     stmts (snd (run_batches now mes (recent_creations mes)
                \<lparr>plus = db, faults = fs,
                 log = [(INFO, Started), (INFO, MesConnected), (INFO, PlusConnected),
                        (INFO, RecentCount (length (recent_creations mes)))],
                 stmts = []\<rparr>))
   \<and> fst (main now mes db fs) =
     fst (run_batches now mes (recent_creations mes)
                \<lparr>plus = db, faults = fs,
                 log = [(INFO, Started), (INFO, MesConnected), (INFO, PlusConnected),
                        (INFO, RecentCount (length (recent_creations mes)))],
                 stmts = []\<rparr>)"
  by (simp add: main_unfold Let_def logging_def split: option.splits)

text \<open>
  Claim C9, as amended. If a run ends without an error and no two recent batches are
  reconciled under the same order code, a second run on the resulting downstream
  database and the same upstream data ends without an error, issues no write statement
  and leaves the database as it is.
\<close>

theorem second_run_writes_nothing:
  assumes "fst (main now mes db fs) = None"
      and "distinct (map batch_order (recent_creations mes))"
  shows "fst (main now' mes (plus (snd (main now mes db fs))) fs') = None
         \<and> stmts (snd (main now' mes (plus (snd (main now mes db fs))) fs')) = []
         \<and> plus (snd (main now' mes (plus (snd (main now mes db fs))) fs'))
           = plus (snd (main now mes db fs))"
proof -
  let ?w0 = "\<lparr>plus = db, faults = fs,
                 log = [(INFO, Started), (INFO, MesConnected), (INFO, PlusConnected),
                        (INFO, RecentCount (length (recent_creations mes)))],
                 stmts = []\<rparr>"
  let ?db1 = "plus (snd (main now mes db fs))"
  let ?w1 = "\<lparr>plus = ?db1, faults = fs',
                 log = [(INFO, Started), (INFO, MesConnected), (INFO, PlusConnected),
                        (INFO, RecentCount (length (recent_creations mes)))],
                 stmts = []\<rparr>"
  from assms(1) have "fst (run_batches now mes (recent_creations mes) ?w0) = None"
    by (simp add: main_plus_stmts)
  from run_batches_settles[OF this assms(2)]
  have "\<forall>b\<in>set (recent_creations mes). settled mes (plus ?w1) b"
    by (simp add: main_plus_stmts)
  from run_batches_all_settled[OF this, of now'] show ?thesis
    by (simp add: main_plus_stmts)
qed

lemma run_batches_locked:
  assumes "movement_lock (plus w) oc"
  shows "movement_lock (plus (snd (run_batches now mes bs w))) oc
         \<and> (\<exists>new. stmts (snd (run_batches now mes bs w)) = stmts w @ new
                    \<and> oc \<notin> stmt_order ` set new)
         \<and> filter (\<lambda>r. r_order r = oc) (sn_library (plus (snd (run_batches now mes bs w))))
           = filter (\<lambda>r. r_order r = oc) (sn_library (plus w))"
  using assms
proof (induction bs arbitrary: w)
  case Nil
  then show ?case by simp
next
  case (Cons b bs)
  obtain r w1 where pb: "process_batch now mes b w = (r, w1)" by (cases "process_batch now mes b w")
  from process_batch_stock[of now mes b w] pb Cons.prems
  have lock1: "movement_lock (plus w1) oc"
    by (simp add: movement_lock_def query_plus_incoming_barcodes_def
        query_plus_outgoing_barcodes_def)
  from process_batch_stmts[of now mes b w] pb obtain new where
    new: "stmts w1 = stmts w @ new"
      "\<forall>st\<in>set new. batch_order b = Some (stmt_order st) \<and> \<not> movement_lock (plus w) (stmt_order st)"
    by auto
  from new(2) Cons.prems have notin: "oc \<notin> stmt_order ` set new" by auto
  have rows: "filter (\<lambda>r. r_order r = oc) (sn_library (plus w1))
              = filter (\<lambda>r. r_order r = oc) (sn_library (plus w))"
  proof (cases "batch_order b = Some oc")
    case True
    with Cons.prems have "settled mes (plus w) b" by (simp add: settled_def)
    from settled_skips[OF this, of now] pb show ?thesis by simp
  next
    case False
    from process_batch_other_orders[OF False, of now mes w] pb show ?thesis by simp
  qed
  show ?case
  proof (cases r)
    case (Some e)
    with pb lock1 new(1) notin rows show ?thesis by simp
  next
    case None
    from Cons.IH[OF lock1] obtain new' where
      ih: "movement_lock (plus (snd (run_batches now mes bs w1))) oc"
        "stmts (snd (run_batches now mes bs w1)) = stmts w1 @ new'"
        "oc \<notin> stmt_order ` set new'"
        "filter (\<lambda>r. r_order r = oc) (sn_library (plus (snd (run_batches now mes bs w1))))
         = filter (\<lambda>r. r_order r = oc) (sn_library (plus w1))"
      by blast
    from ih(2,3) new(1) notin
    have "stmts (snd (run_batches now mes bs w1)) = stmts w @ (new @ new')
          \<and> oc \<notin> stmt_order ` set (new @ new')"
      by (simp add: image_Un)
    then have "\<exists>n. stmts (snd (run_batches now mes bs w1)) = stmts w @ n \<and> oc \<notin> stmt_order ` set n"
      by blast
    with None pb ih(1,4) rows show ?thesis by simp
  qed
qed

text \<open>
  Claim C1, as amended. For every processed batch whose upstream code list and downstream
  imported code list differ in length, the loop body logs a warning and ends the iteration
  at that point: nothing is written, and neither the equality guard nor the movement-lock
  guard is evaluated.
\<close>

theorem count_mismatch_skips:
  assumes "order_code b = Some raw"
      and "length (batch_codes mes b)
           \<noteq> length (query_plus_imported_barcodes (plus w) (extract_order_number raw))"
  shows "process_batch now mes b w =
           (None, w\<lparr>log := log w @
              [(INFO, Processing (task_code b) (extract_order_number raw)),
               (INFO, MesCodes (length (batch_codes mes b))),
               (INFO, PlusCodes (length (query_plus_imported_barcodes (plus w)
                                           (extract_order_number raw)))),
               (WARNING, CountMismatchSkip)]\<rparr>)"
  using assms by (simp add: process_batch_def logging_def Let_def batch_codes_def)

text \<open>The hypotheses of C1 hold in the end-to-end scenario.\<close>

theorem count_mismatch_skips_witness:
  "order_code (creation 1 ''ORD-5'') = Some ''ORD-5''
   \<and> length (batch_codes mes_grown (creation 1 ''ORD-5'')) = 3
   \<and> length (query_plus_imported_barcodes db_grown (extract_order_number ''ORD-5'')) = 2
   \<and> process_batch ''now'' mes_grown (creation 1 ''ORD-5'') (fresh db_grown []) =
       (None, (fresh db_grown [])\<lparr>log :=
          [(INFO, Processing (Some ''TASK'') ''ORD-5''), (INFO, MesCodes 3), (INFO, PlusCodes 2),
           (WARNING, CountMismatchSkip)]\<rparr>)"
proof -
  have a: "order_code (creation 1 ''ORD-5'') = Some ''ORD-5''" by (simp add: creation_def)
  have m: "length (batch_codes mes_grown (creation 1 ''ORD-5'')) = 3" by code_simp
  have p: "length (query_plus_imported_barcodes db_grown (extract_order_number ''ORD-5'')) = 2"
    by code_simp
  have e: "extract_order_number ''ORD-5'' = ''ORD-5''" by code_simp
  have t: "task_code (creation 1 ''ORD-5'') = Some ''TASK''" by (simp add: creation_def)
  have "length (batch_codes mes_grown (creation 1 ''ORD-5''))
        \<noteq> length (query_plus_imported_barcodes (plus (fresh db_grown []))
                    (extract_order_number ''ORD-5''))"
    using m p by (simp add: fresh_def)
  from count_mismatch_skips[OF a this, where now = "''now''"] a m p show ?thesis
    by (simp add: e t fresh_def)
qed

text \<open>
  Claim C1 as stated lets a batch with a count mismatch proceed to the later guards. In the
  end-to-end scenario the counts are 3 and 2, the code sets differ and nothing has moved,
  so both later guards would let the batch through; the run ends with the count-mismatch
  warning and without a write.
\<close>

theorem count_mismatch_counterexample:
  "length (batch_codes mes_grown (creation 1 ''ORD-5'')) = 3
   \<and> length (query_plus_imported_barcodes db_grown ''ORD-5'') = 2
   \<and> set (batch_codes mes_grown (creation 1 ''ORD-5''))
       \<noteq> set (query_plus_imported_barcodes db_grown ''ORD-5'')
   \<and> \<not> movement_lock db_grown ''ORD-5''
   \<and> fst (main ''now'' mes_grown db_grown []) = None
   \<and> last (log (snd (main ''now'' mes_grown db_grown []))) = (WARNING, CountMismatchSkip)
   \<and> stmts (snd (main ''now'' mes_grown db_grown [])) = []
   \<and> plus (snd (main ''now'' mes_grown db_grown [])) = db_grown"
  by code_simp

text \<open>
  Claim C7. For every batch, if the upstream codes and the downstream imported codes are
  equal as sets, the iteration ends normally with the downstream database unchanged and
  no write statement issued.
\<close>

theorem equal_sets_no_writes:
  assumes "order_code b = Some raw"
      and "set (batch_codes mes b)
           = set (query_plus_imported_barcodes (plus w) (extract_order_number raw))"
  shows "fst (process_batch now mes b w) = None
         \<and> plus (snd (process_batch now mes b w)) = plus w
         \<and> stmts (snd (process_batch now mes b w)) = stmts w"
proof -
  from assms have "settled mes (plus w) b" by (simp add: settled_def batch_order_def)
  from settled_skips[OF this, of now] show ?thesis by simp
qed

text \<open>The hypotheses of C7 hold at the first line item of the split order.\<close>

theorem equal_sets_no_writes_witness:
  "order_code (creation 1 ''ABC-123-1-1'') = Some ''ABC-123-1-1''
   \<and> set (batch_codes mes_split (creation 1 ''ABC-123-1-1''))
       = set (query_plus_imported_barcodes (plus (fresh db_split []))
                (extract_order_number ''ABC-123-1-1''))
   \<and> fst (process_batch ''now'' mes_split (creation 1 ''ABC-123-1-1'') (fresh db_split [])) = None
   \<and> plus (snd (process_batch ''now'' mes_split (creation 1 ''ABC-123-1-1'') (fresh db_split [])))
       = db_split
   \<and> stmts (snd (process_batch ''now'' mes_split (creation 1 ''ABC-123-1-1'') (fresh db_split [])))
       = []"
proof -
  have a: "order_code (creation 1 ''ABC-123-1-1'') = Some ''ABC-123-1-1''"
    by (simp add: creation_def)
  have b: "set (batch_codes mes_split (creation 1 ''ABC-123-1-1''))
           = set (query_plus_imported_barcodes (plus (fresh db_split []))
                    (extract_order_number ''ABC-123-1-1''))"
    by code_simp
  from equal_sets_no_writes[OF a b, where now = "''now''"] a b show ?thesis by (simp add: fresh_def)
qed

text \<open>
  Claim C5. If an incoming or an outgoing row exists for an order code when the run
  starts, no write statement of the run targets that order code and its imported rows are
  the same after the run, whatever the code sets and whatever faults occur. So every
  write statement of a run targets an order code without such a row.
\<close>

theorem movement_lock_no_writes:
  assumes "movement_lock db oc"
  shows "oc \<notin> stmt_order ` set (stmts (snd (main now mes db fs)))
         \<and> query_plus_imported_barcodes (plus (snd (main now mes db fs))) oc
           = query_plus_imported_barcodes db oc"
proof -
  let ?w0 = "\<lparr>plus = db, faults = fs,
                 log = [(INFO, Started), (INFO, MesConnected), (INFO, PlusConnected),
                        (INFO, RecentCount (length (recent_creations mes)))],
                 stmts = []\<rparr>"
  from assms have "movement_lock (plus ?w0) oc" by simp
  from run_batches_locked[OF this, of now mes "recent_creations mes"] show ?thesis
    by (auto simp: main_plus_stmts query_plus_imported_barcodes_def)
qed

text \<open>
  The hypothesis of C5 holds for \<^verbatim>\<open>ORD-5\<close> once a serial was received, although
  the code sets differ.
\<close>

theorem movement_lock_no_writes_witness:
  "movement_lock db_moved ''ORD-5''
   \<and> set (batch_codes mes_swapped (creation 1 ''ORD-5''))
       \<noteq> set (query_plus_imported_barcodes db_moved ''ORD-5'')
   \<and> ''ORD-5'' \<notin> stmt_order ` set (stmts (snd (main ''now'' mes_swapped db_moved [])))
   \<and> query_plus_imported_barcodes (plus (snd (main ''now'' mes_swapped db_moved []))) ''ORD-5''
       = [''A1'', ''A2'']"
proof -
  have a: "movement_lock db_moved ''ORD-5''" by code_simp
  have b: "set (batch_codes mes_swapped (creation 1 ''ORD-5''))
           \<noteq> set (query_plus_imported_barcodes db_moved ''ORD-5'')" by code_simp
  have c: "query_plus_imported_barcodes db_moved ''ORD-5'' = [''A1'', ''A2'']" by code_simp
  from movement_lock_no_writes[OF a, where now = "''now''" and mes = mes_swapped and fs = "[]"] a b c show ?thesis by simp
qed

text \<open>
  Claim C6, as amended. After an iteration that issued write statements and ended normally
  (a successful reimport), the downstream imported codes of the order code are exactly the
  list of upstream codes of the batch, one row per upstream barcode: no row from before
  survives, and the downstream codes are free of duplicates whenever the upstream codes of
  the batch are.
\<close>

theorem reimport_replaces_fully:
  assumes "order_code b = Some raw"
      and "fst (process_batch now mes b w) = None"
      and "stmts (snd (process_batch now mes b w)) \<noteq> stmts w"
  shows "query_plus_imported_barcodes (plus (snd (process_batch now mes b w)))
           (extract_order_number raw)
         = batch_codes mes b
         \<and> (distinct (batch_codes mes b) \<longrightarrow>
              distinct (query_plus_imported_barcodes (plus (snd (process_batch now mes b w)))
                          (extract_order_number raw)))"
proof -
  have ns: "\<not> settled mes (plus w) b"
  proof
    assume "settled mes (plus w) b"
    from settled_skips[OF this, of now] assms(3) show False by simp
  qed
  from not_settled_guards[OF assms(1) ns] assms(2)
  have "plus (snd (process_batch now mes b w))
        = fst (insert_plus_barcodes now
                 (fst (delete_plus_imported_barcodes (plus w) (extract_order_number raw)))
                 (extract_order_number raw) (inv_code b)
                 (query_mes_barcode_creation_barcodes mes (bc_id b)))"
    by (intro process_batch_reimports[OF assms(1)]) simp_all
  then have "query_plus_imported_barcodes (plus (snd (process_batch now mes b w)))
               (extract_order_number raw)
             = batch_codes mes b"
    by (simp add: reimported_codes batch_codes_def)
  then show ?thesis by simp
qed

text \<open>
  The hypotheses of C6 hold at the regenerated batch of \<^verbatim>\<open>ORD-5\<close>, whose
  upstream codes are distinct.
\<close>

theorem reimport_replaces_fully_witness:
  "order_code (creation 1 ''ORD-5'') = Some ''ORD-5''
   \<and> fst (process_batch ''now'' mes_swapped (creation 1 ''ORD-5'') (fresh db_swapped [])) = None
   \<and> stmts (snd (process_batch ''now'' mes_swapped (creation 1 ''ORD-5'') (fresh db_swapped [])))
       = [DeleteStmt ''ORD-5'', InsertStmt ''ORD-5'' [''A1'', ''A3'']]
   \<and> query_plus_imported_barcodes db_swapped ''ORD-5'' = [''A1'', ''A2'']
   \<and> distinct (batch_codes mes_swapped (creation 1 ''ORD-5''))
   \<and> query_plus_imported_barcodes
        (plus (snd (process_batch ''now'' mes_swapped (creation 1 ''ORD-5'') (fresh db_swapped []))))
        (extract_order_number ''ORD-5'')
       = [''A1'', ''A3'']
   \<and> distinct (query_plus_imported_barcodes
        (plus (snd (process_batch ''now'' mes_swapped (creation 1 ''ORD-5'') (fresh db_swapped []))))
        (extract_order_number ''ORD-5''))"
proof -
  let ?r = "process_batch ''now'' mes_swapped (creation 1 ''ORD-5'') (fresh db_swapped [])"
  have a: "order_code (creation 1 ''ORD-5'') = Some ''ORD-5''" by (simp add: creation_def)
  have b: "fst ?r = None" by code_simp
  have c: "stmts (snd ?r) = [DeleteStmt ''ORD-5'', InsertStmt ''ORD-5'' [''A1'', ''A3'']]"
    by code_simp
  have d: "stmts (snd ?r) \<noteq> stmts (fresh db_swapped [])"
    unfolding c by (simp add: fresh_def)
  have e: "query_plus_imported_barcodes db_swapped ''ORD-5'' = [''A1'', ''A2'']" by code_simp
  have f: "batch_codes mes_swapped (creation 1 ''ORD-5'') = [''A1'', ''A3'']" by code_simp
  have g: "distinct (batch_codes mes_swapped (creation 1 ''ORD-5''))" by code_simp
  from reimport_replaces_fully[OF a b d] g
  have h: "query_plus_imported_barcodes (plus (snd ?r)) (extract_order_number ''ORD-5'')
             = batch_codes mes_swapped (creation 1 ''ORD-5'')"
      "distinct (query_plus_imported_barcodes (plus (snd ?r)) (extract_order_number ''ORD-5''))"
    by blast+
  from h(1) f have i: "query_plus_imported_barcodes (plus (snd ?r)) (extract_order_number ''ORD-5'')
                       = [''A1'', ''A3'']" by simp
  from a b c e g i h(2) show ?thesis by blast
qed

text \<open>
  Claim C6 as stated lets no reimport introduce a duplicate. When the code K1 was generated
  twice upstream, the guards let the batch through (two codes on each side, different
  sets, nothing moved), the reimport succeeds, and the downstream codes of the order, free
  of duplicates before, are K1, K1 after: the insert writes one row per upstream barcode.
\<close>

theorem reimport_duplicates_counterexample:
  "distinct (query_plus_imported_barcodes db_twice ''ORD-7'')
   \<and> fst (main ''now'' mes_twice db_twice []) = None
   \<and> stmts (snd (main ''now'' mes_twice db_twice []))
      = [DeleteStmt ''ORD-7'', InsertStmt ''ORD-7'' [''K1'', ''K1'']]
   \<and> query_plus_imported_barcodes (plus (snd (main ''now'' mes_twice db_twice []))) ''ORD-7''
      = [''K1'', ''K1'']
   \<and> \<not> distinct (query_plus_imported_barcodes
                     (plus (snd (main ''now'' mes_twice db_twice []))) ''ORD-7'')"
  by code_simp

lemma process_batch_faulty:
  assumes "order_code b = Some raw"
      and "length (batch_codes mes b)
           = length (query_plus_imported_barcodes (plus w) (extract_order_number raw))"
      and "set (batch_codes mes b)
           \<noteq> set (query_plus_imported_barcodes (plus w) (extract_order_number raw))"
      and "\<not> movement_lock (plus w) (extract_order_number raw)"
      and "faults w = f # fs"
  shows "f = DeleteFault \<Longrightarrow>
           fst (process_batch now mes b w) = Some DeleteError
           \<and> plus (snd (process_batch now mes b w)) = plus w
           \<and> stmts (snd (process_batch now mes b w))
              = stmts w @ [DeleteStmt (extract_order_number raw)]
           \<and> last (log (snd (process_batch now mes b w))) = (ERROR, ReimportFailed DeleteError)"
    and "f = InsertFault k \<Longrightarrow>
           fst (process_batch now mes b w) = Some InsertError
           \<and> plus (snd (process_batch now mes b w)) = plus w
           \<and> stmts (snd (process_batch now mes b w))
              = stmts w @ [DeleteStmt (extract_order_number raw),
                           InsertStmt (extract_order_number raw) (batch_codes mes b)]
           \<and> last (log (snd (process_batch now mes b w))) = (ERROR, ReimportFailed InsertError)"
  using assms
  by (simp_all add: process_batch_def reimport_def next_fault_def logging_def issue_def Let_def
      batch_codes_def movement_lock_def split_beta)

text \<open>
  Claim C4. When the guards let a batch through and the insert fails after the delete was
  issued, the iteration raises, both statements were issued on the transaction, and the
  committed downstream database is the one from before the batch: the imported rows of
  the order code are neither gone nor partly replaced.
\<close>

theorem reimport_atomic:
  assumes "order_code b = Some raw"
      and "length (batch_codes mes b)
           = length (query_plus_imported_barcodes (plus w) (extract_order_number raw))"
      and "set (batch_codes mes b)
           \<noteq> set (query_plus_imported_barcodes (plus w) (extract_order_number raw))"
      and "\<not> movement_lock (plus w) (extract_order_number raw)"
      and "faults w = InsertFault k # fs"
  shows "fst (process_batch now mes b w) = Some InsertError
         \<and> stmts (snd (process_batch now mes b w))
            = stmts w @ [DeleteStmt (extract_order_number raw),
                         InsertStmt (extract_order_number raw) (batch_codes mes b)]
         \<and> query_plus_imported_barcodes (plus (snd (process_batch now mes b w)))
              (extract_order_number raw)
            = query_plus_imported_barcodes (plus w) (extract_order_number raw)
         \<and> plus (snd (process_batch now mes b w)) = plus w"
  using process_batch_faulty(2)[OF assms refl, where now = now] by simp

text \<open>
  The hypotheses of C4 hold at the regenerated batch of \<^verbatim>\<open>ORD-5\<close> with an
  insert that fails after one row.
\<close>

theorem reimport_atomic_witness:
  "order_code (creation 1 ''ORD-5'') = Some ''ORD-5''
   \<and> extract_order_number ''ORD-5'' = ''ORD-5''
   \<and> batch_codes mes_swapped (creation 1 ''ORD-5'') = [''A1'', ''A3'']
   \<and> query_plus_imported_barcodes db_swapped ''ORD-5'' = [''A1'', ''A2'']
   \<and> \<not> movement_lock db_swapped ''ORD-5''
   \<and> fst (process_batch ''now'' mes_swapped (creation 1 ''ORD-5'') (fresh db_swapped [InsertFault 1]))
       = Some InsertError
   \<and> stmts (snd (process_batch ''now'' mes_swapped (creation 1 ''ORD-5'')
                   (fresh db_swapped [InsertFault 1])))
       = [DeleteStmt ''ORD-5'', InsertStmt ''ORD-5'' [''A1'', ''A3'']]
   \<and> plus (snd (process_batch ''now'' mes_swapped (creation 1 ''ORD-5'')
                  (fresh db_swapped [InsertFault 1])))
       = db_swapped"
proof -
  let ?w = "fresh db_swapped [InsertFault 1]"
  have a: "order_code (creation 1 ''ORD-5'') = Some ''ORD-5''" by (simp add: creation_def)
  have e: "extract_order_number ''ORD-5'' = ''ORD-5''" by code_simp
  have m: "batch_codes mes_swapped (creation 1 ''ORD-5'') = [''A1'', ''A3'']" by code_simp
  have p: "query_plus_imported_barcodes db_swapped ''ORD-5'' = [''A1'', ''A2'']" by code_simp
  have l: "\<not> movement_lock db_swapped ''ORD-5''" by code_simp
  have w: "plus ?w = db_swapped" "faults ?w = InsertFault 1 # []" "stmts ?w = []"
    unfolding fresh_def by simp_all
  have g1: "length (batch_codes mes_swapped (creation 1 ''ORD-5''))
            = length (query_plus_imported_barcodes (plus ?w) (extract_order_number ''ORD-5''))"
    by code_simp
  have g2: "set (batch_codes mes_swapped (creation 1 ''ORD-5''))
            \<noteq> set (query_plus_imported_barcodes (plus ?w) (extract_order_number ''ORD-5''))"
    by code_simp
  have g3: "\<not> movement_lock (plus ?w) (extract_order_number ''ORD-5'')"
    by code_simp
  from reimport_atomic[OF a g1 g2 g3 w(2), where now = "''now''"] a e m p l show ?thesis
    by (simp add: fresh_def)
qed

text \<open>
  Claim C2, as amended. If the delete or the insert of a batch's reimport fails, the
  committed downstream database is the one from before the batch, the error is logged,
  and the loop ends with that error: the batches after it are not processed.
\<close>

theorem reimport_failure_ends_run:
  assumes "order_code b = Some raw"
      and "length (batch_codes mes b)
           = length (query_plus_imported_barcodes (plus w) (extract_order_number raw))"
      and "set (batch_codes mes b)
           \<noteq> set (query_plus_imported_barcodes (plus w) (extract_order_number raw))"
      and "\<not> movement_lock (plus w) (extract_order_number raw)"
      and "faults w = f # fs"
      and "f = DeleteFault \<or> f = InsertFault k"
  shows "\<exists>e. run_batches now mes (b # bs) w = (Some e, snd (process_batch now mes b w))
             \<and> plus (snd (process_batch now mes b w)) = plus w
             \<and> last (log (snd (process_batch now mes b w))) = (ERROR, ReimportFailed e)"
proof -
  note del = process_batch_faulty(1)[OF assms(1-5), where now = now]
  note ins = process_batch_faulty(2)[OF assms(1-5), where now = now and k = k]
  from assms(6) del ins obtain e where
    e: "fst (process_batch now mes b w) = Some e"
       "plus (snd (process_batch now mes b w)) = plus w"
       "last (log (snd (process_batch now mes b w))) = (ERROR, ReimportFailed e)"
    by blast
  from e(1) have "run_batches now mes (b # bs) w = (Some e, snd (process_batch now mes b w))"
    by (cases "process_batch now mes b w") simp
  with e(2,3) show ?thesis by blast
qed

text \<open>
  The hypotheses of C2 hold at the regenerated batch of \<^verbatim>\<open>ORD-5\<close> with a failing
  delete.
\<close>

theorem reimport_failure_ends_run_witness:
  "order_code (creation 1 ''ORD-5'') = Some ''ORD-5''
   \<and> extract_order_number ''ORD-5'' = ''ORD-5''
   \<and> batch_codes mes_swapped (creation 1 ''ORD-5'') = [''A1'', ''A3'']
   \<and> query_plus_imported_barcodes db_swapped ''ORD-5'' = [''A1'', ''A2'']
   \<and> \<not> movement_lock db_swapped ''ORD-5''
   \<and> (\<exists>e. run_batches ''now'' mes_swapped [creation 1 ''ORD-5'', creation 2 ''ORD-6'']
               (fresh db_swapped [DeleteFault])
             = (Some e, snd (process_batch ''now'' mes_swapped (creation 1 ''ORD-5'')
                               (fresh db_swapped [DeleteFault])))
           \<and> plus (snd (process_batch ''now'' mes_swapped (creation 1 ''ORD-5'')
                          (fresh db_swapped [DeleteFault]))) = db_swapped
           \<and> last (log (snd (process_batch ''now'' mes_swapped (creation 1 ''ORD-5'')
                               (fresh db_swapped [DeleteFault]))))
              = (ERROR, ReimportFailed e))"
proof -
  let ?w = "fresh db_swapped [DeleteFault]"
  have a: "order_code (creation 1 ''ORD-5'') = Some ''ORD-5''" by (simp add: creation_def)
  have e: "extract_order_number ''ORD-5'' = ''ORD-5''" by code_simp
  have m: "batch_codes mes_swapped (creation 1 ''ORD-5'') = [''A1'', ''A3'']" by code_simp
  have p: "query_plus_imported_barcodes db_swapped ''ORD-5'' = [''A1'', ''A2'']" by code_simp
  have l: "\<not> movement_lock db_swapped ''ORD-5''" by code_simp
  have w: "plus ?w = db_swapped" "faults ?w = DeleteFault # []"
    unfolding fresh_def by simp_all
  have g1: "length (batch_codes mes_swapped (creation 1 ''ORD-5''))
            = length (query_plus_imported_barcodes (plus ?w) (extract_order_number ''ORD-5''))"
    by code_simp
  have g2: "set (batch_codes mes_swapped (creation 1 ''ORD-5''))
            \<noteq> set (query_plus_imported_barcodes (plus ?w) (extract_order_number ''ORD-5''))"
    by code_simp
  have g3: "\<not> movement_lock (plus ?w) (extract_order_number ''ORD-5'')"
    by code_simp
  have f: "DeleteFault = DeleteFault \<or> DeleteFault = InsertFault 0" by simp
  from reimport_failure_ends_run[OF a g1 g2 g3 w(2) f, where now = "''now''" and bs = "[creation 2 ''ORD-6'']"]
    a e m p l
  show ?thesis by (simp add: fresh_def)
qed

text \<open>
  Claim C2 as stated lets the run continue with the next batch. When the insert for
  \<^verbatim>\<open>ORD-5\<close> fails, the run ends with the error; the batch of \<^verbatim>\<open>ORD-6\<close>
  leaves no trace in the log and keeps its stale code, which the run without the fault
  replaces.
\<close>

theorem failed_reimport_stops_run_counterexample:
  "fst (main ''now'' mes_swapped db_swapped [InsertFault 0]) = Some InsertError
   \<and> log (snd (main ''now'' mes_swapped db_swapped [InsertFault 0]))
      = [(INFO, Started), (INFO, MesConnected), (INFO, PlusConnected), (INFO, RecentCount 2),
         (INFO, Processing (Some ''TASK'') ''ORD-5''), (INFO, MesCodes 2), (INFO, PlusCodes 2),
         (INFO, Deleted 2), (ERROR, ReimportFailed InsertError), (ERROR, RunFailed InsertError)]
   \<and> query_plus_imported_barcodes (plus (snd (main ''now'' mes_swapped db_swapped [InsertFault 0])))
        ''ORD-6'' = [''B1'']
   \<and> query_plus_imported_barcodes (plus (snd (main ''now'' mes_swapped db_swapped [])))
        ''ORD-6'' = [''B2'']"
  by code_simp

text \<open>
  Claim C9 as stated holds for every upstream and downstream pair. The two line items of
  the split order share the order code \<^verbatim>\<open>ABC-123\<close>: the first run leaves the
  codes of the second batch downstream, and the second run, on unchanged data, rewrites
  the order code twice.
\<close>

theorem second_run_writes_counterexample:
  "fst (main ''now'' mes_split db_split []) = None
   \<and> stmts (snd (main ''later'' mes_split (plus (snd (main ''now'' mes_split db_split []))) []))
      = [DeleteStmt ''ABC-123'', InsertStmt ''ABC-123'' [''S1''],
         DeleteStmt ''ABC-123'', InsertStmt ''ABC-123'' [''S2'']]"
  by code_simp

text \<open>The hypotheses of C9 hold for the two regenerated batches.\<close>

theorem second_run_writes_nothing_witness:
  "fst (main ''now'' mes_swapped db_swapped []) = None
   \<and> distinct (map batch_order (recent_creations mes_swapped))
   \<and> stmts (snd (main ''now'' mes_swapped db_swapped []))
      = [DeleteStmt ''ORD-5'', InsertStmt ''ORD-5'' [''A1'', ''A3''],
         DeleteStmt ''ORD-6'', InsertStmt ''ORD-6'' [''B2'']]
   \<and> fst (main ''later'' mes_swapped (plus (snd (main ''now'' mes_swapped db_swapped []))) []) = None
   \<and> stmts (snd (main ''later'' mes_swapped (plus (snd (main ''now'' mes_swapped db_swapped []))) []))
      = []"
proof -
  have a: "fst (main ''now'' mes_swapped db_swapped []) = None" by code_simp
  have d: "distinct (map batch_order (recent_creations mes_swapped))" by code_simp
  have s: "stmts (snd (main ''now'' mes_swapped db_swapped []))
           = [DeleteStmt ''ORD-5'', InsertStmt ''ORD-5'' [''A1'', ''A3''],
              DeleteStmt ''ORD-6'', InsertStmt ''ORD-6'' [''B2'']]" by code_simp
  from second_run_writes_nothing[OF a d, of "''later''" "[]"] a d s show ?thesis by simp
qed

end
